theory Spec2Isabelle
  imports Main
begin

section \<open>The useQueryParam hook: data model\<close>

text \<open>
  The hook lives in the post \<^verbatim>\<open>useQueryParam\<close> (lines 610 to 645 of the MDX file):
  \<^verbatim>\<open>
  const handleParam = (key, value, options = {}) => {
    const { historyState = `replace`, nullDeletes = true } = options
    const params = new URLSearchParams(location.search)
    if (value === undefined) value = params.get(key)
    if (value === null && nullDeletes) params.delete(key)
    else params.set(key, value)
    const target =
      location.pathname.replace(/\/$/, ``) +
      (params.toString() ? `?` + params.toString() : ``)
    history[historyState + `State`]({ path: value }, ``, target)
    return value
  }

  export const useQueryParam = (key, value, options) => {
    const [param, setParam] = useState(handleParam(key, value, options))
    return [
      param,
      (newValue, override) =>
        setParam(handleParam(key, newValue, { ...options, ...override })),
    ]
  }
  \<close>

  A \<^typ>\<open>string\<close> is a byte string: it stands for the UTF-8 form of a string of scalar
  values, as the URL and the pairs of \<^verbatim>\<open>URLSearchParams\<close> hold them. The key is held this
  way too, since the code passes it only to \<^verbatim>\<open>get\<close>, \<^verbatim>\<open>delete\<close> and \<^verbatim>\<open>set\<close>, which
  convert it first. The replacement of ill-formed byte sequences by U+FFFD in the decoder
  of \<^verbatim>\<open>URLSearchParams\<close> is not part of the model.
\<close>

text \<open>
  A JavaScript string is a sequence of UTF-16 code units. The model holds it by its
  parts, in order: the bytes of the UTF-8 form of every scalar value of the string (a
  code unit outside the surrogate range, or a surrogate pair), and every surrogate that
  is not part of a pair, with the high and the low byte of its code unit.
\<close>

datatype js_unit = Byte char | Surrogate char char

type_synonym js_string = "js_unit list"

text \<open>The JavaScript string of a byte string in UTF-8.\<close>

definition js :: "string \<Rightarrow> js_string" where
  "js s = map Byte s"

text \<open>
  The conversion to a \<^verbatim>\<open>USVString\<close> that the methods of \<^verbatim>\<open>URLSearchParams\<close> apply to
  their arguments, followed by UTF-8: a surrogate outside a pair becomes U+FFFD, the
  bytes \<^verbatim>\<open>EF BF BD\<close>.
\<close>

fun usv_unit :: "js_unit \<Rightarrow> string" where
  "usv_unit (Byte c) = [c]"
| "usv_unit (Surrogate h l) = [CHR 0xEF, CHR 0xBF, CHR 0xBD]"

definition usv :: "js_string \<Rightarrow> string" where
  "usv s = concat (map usv_unit s)"

text \<open>The well-formed strings: those without a surrogate outside a pair.\<close>

fun is_byte :: "js_unit \<Rightarrow> bool" where
  "is_byte (Byte c) = True"
| "is_byte (Surrogate h l) = False"

definition well_formed :: "js_string \<Rightarrow> bool" where
  "well_formed s = list_all is_byte s"

text \<open>The three kinds of value the hook is called with: \<^verbatim>\<open>undefined\<close>, \<^verbatim>\<open>null\<close>, a string.\<close>

datatype qvalue = Undefined | Null | Str js_string

text \<open>The two history methods the option \<^verbatim>\<open>historyState\<close> selects.\<close>

datatype history_mode = Replace | Push

text \<open>The options object; a field that is not given is \<open>None\<close>, so \<^verbatim>\<open>{}\<close> has two.\<close>

record options =
  historyState :: "history_mode option"
  nullDeletes :: "bool option"

definition no_options :: options where
  "no_options = \<lparr>historyState = None, nullDeletes = None\<rparr>"

text \<open>The two components of \<^verbatim>\<open>location\<close> the code reads.\<close>

record location =
  pathname :: string
  search :: string

section \<open>URLSearchParams\<close>

text \<open>
  The browser class, after the URL Standard: a list of name-value pairs, in order, with
  duplicates. Percent-encoded bytes are written with upper-case digits and read with
  either case.
\<close>

type_synonym params = "(string \<times> string) list"

definition hex_digits :: string where
  "hex_digits = ''0123456789ABCDEF''"

definition hex_value :: "char \<Rightarrow> nat option" where
  "hex_value c =
     map_of
       [(CHR ''0'', 0), (CHR ''1'', 1), (CHR ''2'', 2), (CHR ''3'', 3), (CHR ''4'', 4),
        (CHR ''5'', 5), (CHR ''6'', 6), (CHR ''7'', 7), (CHR ''8'', 8), (CHR ''9'', 9),
        (CHR ''A'', 10), (CHR ''B'', 11), (CHR ''C'', 12), (CHR ''D'', 13), (CHR ''E'', 14),
        (CHR ''F'', 15), (CHR ''a'', 10), (CHR ''b'', 11), (CHR ''c'', 12), (CHR ''d'', 13),
        (CHR ''e'', 14), (CHR ''f'', 15)] c"

definition percent_encode_byte :: "char \<Rightarrow> string" where
  "percent_encode_byte c =
     [CHR ''%'', hex_digits ! (of_char c div 16), hex_digits ! (of_char c mod 16)]"

text \<open>
  Percent-decoding: a \<^verbatim>\<open>%\<close> that two hexadecimal digits do not follow stays as it is.
\<close>

fun percent_decode :: "string \<Rightarrow> string" where
  "percent_decode [] = []"
| "percent_decode (c # cs) =
     (if c = CHR ''%'' then
        (case cs of
           h # l # rest \<Rightarrow>
             (case hex_value h of
                Some a \<Rightarrow>
                  (case hex_value l of
                     Some b \<Rightarrow> char_of (16 * a + b) # percent_decode rest
                   | None \<Rightarrow> c # percent_decode cs)
              | None \<Rightarrow> c # percent_decode cs)
         | _ \<Rightarrow> c # percent_decode cs)
      else c # percent_decode cs)"

text \<open>
  The bytes the urlencoded serializer leaves as they are: ASCII letters and digits and
  \<^verbatim>\<open>*-._\<close>. A space becomes \<^verbatim>\<open>+\<close>, every other byte is percent-encoded.
\<close>

definition urlencoded_safe :: "char \<Rightarrow> bool" where
  "urlencoded_safe c \<longleftrightarrow>
     c \<in> set ''ABCDEFGHIJKLMNOPQRSTUVWXYZabcdefghijklmnopqrstuvwxyz0123456789*-._''"

definition urlencode_byte :: "char \<Rightarrow> string" where
  "urlencode_byte c =
     (if c = CHR '' '' then ''+''
      else if urlencoded_safe c then [c]
      else percent_encode_byte c)"

definition urlencode :: "string \<Rightarrow> string" where
  "urlencode s = concat (map urlencode_byte s)"

definition plus_to_space :: "string \<Rightarrow> string" where
  "plus_to_space s = map (\<lambda>c. if c = CHR ''+'' then CHR '' '' else c) s"

definition urldecode :: "string \<Rightarrow> string" where
  "urldecode s = percent_decode (plus_to_space s)"

text \<open>Strict splitting on a delimiter: the result is never empty.\<close>

fun split_on :: "char \<Rightarrow> string \<Rightarrow> string list" where
  "split_on d [] = [[]]"
| "split_on d (c # cs) =
     (if c = d then [] # split_on d cs
      else (case split_on d cs of
              [] \<Rightarrow> [[c]]
            | s # ss \<Rightarrow> (c # s) # ss))"

text \<open>
  One sequence of the urlencoded parser: the name is what is before the first
  \<^verbatim>\<open>=\<close>, the value what is after it, or empty when there is none.
\<close>

definition parse_pair :: "string \<Rightarrow> string \<times> string" where
  "parse_pair s =
     (let name = takeWhile (\<lambda>c. c \<noteq> CHR ''='') s;
          rest = dropWhile (\<lambda>c. c \<noteq> CHR ''='') s;
          val = (case rest of [] \<Rightarrow> [] | _ # v \<Rightarrow> v)
      in (urldecode name, urldecode val))"

definition urlencoded_parse :: "string \<Rightarrow> params" where
  "urlencoded_parse input =
     map parse_pair (filter (\<lambda>s. s \<noteq> []) (split_on CHR ''&'' input))"

text \<open>\<^verbatim>\<open>new URLSearchParams(init)\<close> for a string: one leading \<^verbatim>\<open>?\<close> is dropped.\<close>

definition URLSearchParams :: "string \<Rightarrow> params" where
  "URLSearchParams init =
     urlencoded_parse
       (case init of
          [] \<Rightarrow> []
        | c # cs \<Rightarrow> if c = CHR ''?'' then cs else init)"

text \<open>\<^verbatim>\<open>params.get(name)\<close>: the value of the first pair of that name, or \<^verbatim>\<open>null\<close>.\<close>

definition params_get :: "params \<Rightarrow> string \<Rightarrow> qvalue" where
  "params_get ps name =
     (case find (\<lambda>p. fst p = name) ps of
        None \<Rightarrow> Null
      | Some p \<Rightarrow> Str (js (snd p)))"

text \<open>\<^verbatim>\<open>params.delete(name)\<close>: every pair of that name goes.\<close>

definition params_delete :: "params \<Rightarrow> string \<Rightarrow> params" where
  "params_delete ps name = filter (\<lambda>p. fst p \<noteq> name) ps"

text \<open>
  \<^verbatim>\<open>params.set(name, value)\<close>: the first pair of that name takes the value and the
  others of that name go; without such a pair, a new one is appended.
\<close>

fun params_set :: "params \<Rightarrow> string \<Rightarrow> string \<Rightarrow> params" where
  "params_set [] name v = [(name, v)]"
| "params_set (p # ps) name v =
     (if fst p = name then (name, v) # params_delete ps name
      else p # params_set ps name v)"

text \<open>\<^verbatim>\<open>params.toString()\<close>: the pairs as \<^verbatim>\<open>name=value\<close>, joined by \<^verbatim>\<open>&\<close>.\<close>

definition serialize_pair :: "string \<times> string \<Rightarrow> string" where
  "serialize_pair p = urlencode (fst p) @ ''='' @ urlencode (snd p)"

fun params_toString :: "params \<Rightarrow> string" where
  "params_toString [] = []"
| "params_toString [p] = serialize_pair p"
| "params_toString (p # q # ps) = serialize_pair p @ ''&'' @ params_toString (q # ps)"

text \<open>The string a value becomes when \<^verbatim>\<open>set\<close> receives it.\<close>

fun to_string :: "qvalue \<Rightarrow> string" where
  "to_string Undefined = ''undefined''"
| "to_string Null = ''null''"
| "to_string (Str s) = usv s"

section \<open>The pure part of handleParam\<close>

text \<open>\<^verbatim>\<open>pathname.replace(/\/$/, ``)\<close>: one slash at the end goes.\<close>

definition strip_trailing_slash :: "string \<Rightarrow> string" where
  "strip_trailing_slash p = (if p \<noteq> [] \<and> last p = CHR ''/'' then butlast p else p)"

text \<open>
  Lines 611 to 627 of \<^verbatim>\<open>handleParam\<close>, everything before the call of the history
  method: the target URL and the value returned.
\<close>

definition resolve :: "location \<Rightarrow> string \<Rightarrow> qvalue \<Rightarrow> options \<Rightarrow> string \<times> qvalue" where
  "resolve loc key val opts =
     (let nullDel = (case nullDeletes opts of None \<Rightarrow> True | Some b \<Rightarrow> b);
          params = URLSearchParams (search loc);
          val = (if val = Undefined then params_get params key else val);
          params = (if val = Null \<and> nullDel then params_delete params key
                    else params_set params key (to_string val));
          target = strip_trailing_slash (pathname loc) @
                   (if params_toString params \<noteq> [] then ''?'' @ params_toString params else [])
      in (target, val))"

section \<open>The session history\<close>

text \<open>
  One entry holds the state object (\<^verbatim>\<open>{ path: value }\<close>, so the value) and the URL.
  The history is the entries behind the current one (nearest first), the current one, and
  those ahead of it.
\<close>

record entry =
  state :: qvalue
  url :: location

record session =
  back_entries :: "entry list"
  current :: entry
  forward_entries :: "entry list"

definition history_length :: "session \<Rightarrow> nat" where
  "history_length s = length (back_entries s) + 1 + length (forward_entries s)"

datatype error = SecurityError

text \<open>
  The URL that the third argument of \<^verbatim>\<open>pushState\<close> or \<^verbatim>\<open>replaceState\<close> names. The
  HTML Standard (shared history push/replace state steps) starts from the URL of the
  document and parses the argument relative to it only when it is not the empty string;
  the history methods throw a \<^verbatim>\<open>SecurityError\<close> when the result is on another origin.
  The model covers the targets \<^verbatim>\<open>handleParam\<close> builds from a path that begins with a
  slash:
  \<^item> the empty string leaves the URL as it is;
  \<^item> a target that begins with \<^verbatim>\<open>?\<close> keeps the path and replaces the query;
  \<^item> a target that begins with two slashes names a host, taken to be another origin;
  \<^item> any other target is a path, with the query after the first \<^verbatim>\<open>?\<close>.

  As \<^verbatim>\<open>location.search\<close> does, the model reads an empty query as the empty string.
\<close>

definition resolve_url :: "location \<Rightarrow> string \<Rightarrow> error + location" where
  "resolve_url base target =
     (let path = takeWhile (\<lambda>c. c \<noteq> CHR ''?'') target;
          query = dropWhile (\<lambda>c. c \<noteq> CHR ''?'') target;
          srch = (if length query \<le> 1 then [] else query)
      in if target = [] then Inr base
         else if path = [] then Inr \<lparr>pathname = pathname base, search = srch\<rparr>
         else if take 2 path = ''//'' then Inl SecurityError
         else Inr \<lparr>pathname = path, search = srch\<rparr>)"

text \<open>\<^verbatim>\<open>history.replaceState\<close> and \<^verbatim>\<open>history.pushState\<close>.\<close>

definition history_commit :: "history_mode \<Rightarrow> qvalue \<Rightarrow> string \<Rightarrow> session \<Rightarrow> error + session" where
  "history_commit mode data target s =
     (case resolve_url (url (current s)) target of
        Inl e \<Rightarrow> Inl e
      | Inr u \<Rightarrow>
          (case mode of
             Replace \<Rightarrow> Inr (s\<lparr>current := \<lparr>state = data, url = u\<rparr>\<rparr>)
           | Push \<Rightarrow>
               Inr \<lparr>back_entries = current s # back_entries s,
                    current = \<lparr>state = data, url = u\<rparr>,
                    forward_entries = []\<rparr>))"

section \<open>handleParam and the hook\<close>

definition handleParam :: "string \<Rightarrow> qvalue \<Rightarrow> options \<Rightarrow> session \<Rightarrow> error + (qvalue \<times> session)" where
  "handleParam key val opts s =
     (let mode = (case historyState opts of None \<Rightarrow> Replace | Some m \<Rightarrow> m);
          (target, val') = resolve (url (current s)) key val opts
      in case history_commit mode val' target s of
           Inl e \<Rightarrow> Inl e
         | Inr s' \<Rightarrow> Inr (val', s'))"

text \<open>\<^verbatim>\<open>{ ...options, ...override }\<close>: a field of the override wins where it is given.\<close>

definition merge_options :: "options \<Rightarrow> options \<Rightarrow> options" where
  "merge_options opts override =
     \<lparr>historyState = (case historyState override of None \<Rightarrow> historyState opts | Some m \<Rightarrow> Some m),
      nullDeletes = (case nullDeletes override of None \<Rightarrow> nullDeletes opts | Some b \<Rightarrow> Some b)\<rparr>"

text \<open>
  What one use of the hook holds: the key, the value and the options of the call, and
  the state \<^verbatim>\<open>param\<close> of \<^verbatim>\<open>useState\<close>.
\<close>

record hook =
  hook_key :: string
  hook_value :: qvalue
  hook_options :: options
  param :: qvalue

text \<open>
  The first render: \<^verbatim>\<open>useState(handleParam(key, value, options))\<close>, where the result of
  \<^verbatim>\<open>handleParam\<close> becomes the state.
\<close>

definition useQueryParam :: "string \<Rightarrow> qvalue \<Rightarrow> options \<Rightarrow> session \<Rightarrow> error + (hook \<times> session)" where
  "useQueryParam key val opts s =
     (case handleParam key val opts s of
        Inl e \<Rightarrow> Inl e
      | Inr (v, s') \<Rightarrow>
          Inr (\<lparr>hook_key = key, hook_value = val, hook_options = opts, param = v\<rparr>, s'))"

text \<open>
  A render after the first: the body of \<^verbatim>\<open>useQueryParam\<close> runs again with the arguments
  of the call, so the argument of \<^verbatim>\<open>useState\<close> is evaluated again and \<^verbatim>\<open>handleParam\<close>
  commits again; \<^verbatim>\<open>useState\<close> ignores the result and keeps the state.
\<close>

definition render :: "hook \<Rightarrow> session \<Rightarrow> error + session" where
  "render hk s =
     (case handleParam (hook_key hk) (hook_value hk) (hook_options hk) s of
        Inl e \<Rightarrow> Inl e
      | Inr (v, s') \<Rightarrow> Inr s')"

text \<open>
  The setter the hook returns: \<^verbatim>\<open>setParam(handleParam(key, newValue, {...}))\<close>.
  \<^verbatim>\<open>handleParam\<close> runs first; \<^verbatim>\<open>setParam\<close> then stores its result, and React renders
  the component again when the state has changed (for a state that is the same by
  \<^verbatim>\<open>Object.is\<close> it skips the render).
\<close>

definition setQueryParam :: "hook \<Rightarrow> qvalue \<Rightarrow> options \<Rightarrow> session \<Rightarrow> error + (hook \<times> session)" where
  "setQueryParam hk newValue override s =
     (case handleParam (hook_key hk) newValue (merge_options (hook_options hk) override) s of
        Inl e \<Rightarrow> Inl e
      | Inr (v, s') \<Rightarrow>
          if v = param hk then Inr (hk, s')
          else (case render (hk\<lparr>param := v\<rparr>) s' of
                  Inl e \<Rightarrow> Inl e
                | Inr s'' \<Rightarrow> Inr (hk\<lparr>param := v\<rparr>, s'')))"

text \<open>A session of one entry, at the given URL.\<close>

definition start_session :: "location \<Rightarrow> session" where
  "start_session loc = \<lparr>back_entries = [], current = \<lparr>state = Null, url = loc\<rparr>, forward_entries = []\<rparr>"

section \<open>Auxiliary notions for the proofs\<close>

text \<open>
  The parts of \<open>resolve\<close> by name: the option \<^verbatim>\<open>nullDeletes\<close> with its default, the
  value returned, the parameter list after the deletion or the assignment, and the query
  part of the target.
\<close>

definition null_deletes :: "options \<Rightarrow> bool" where
  "null_deletes opts = (case nullDeletes opts of None \<Rightarrow> True | Some b \<Rightarrow> b)"

definition resolved_value :: "location \<Rightarrow> string \<Rightarrow> qvalue \<Rightarrow> qvalue" where
  "resolved_value loc key val =
     (if val = Undefined then params_get (URLSearchParams (search loc)) key else val)"

definition updated_params :: "location \<Rightarrow> string \<Rightarrow> qvalue \<Rightarrow> options \<Rightarrow> params" where
  "updated_params loc key val opts =
     (if resolved_value loc key val = Null \<and> null_deletes opts
      then params_delete (URLSearchParams (search loc)) key
      else params_set (URLSearchParams (search loc)) key (to_string (resolved_value loc key val)))"

definition query_suffix :: "params \<Rightarrow> string" where
  "query_suffix ps = (if params_toString ps \<noteq> [] then ''?'' @ params_toString ps else [])"

text \<open>
  The paths a browser exposes as \<^verbatim>\<open>location.pathname\<close> on a web page: they begin with a
  slash and hold neither \<^verbatim>\<open>?\<close> nor \<^verbatim>\<open>#\<close>.
\<close>

definition wf_location :: "location \<Rightarrow> bool" where
  "wf_location loc \<longleftrightarrow>
     take 1 (pathname loc) = ''/'' \<and> CHR ''?'' \<notin> set (pathname loc) \<and> CHR ''#'' \<notin> set (pathname loc)"


text \<open>
  The history method \<^verbatim>\<open>handleParam\<close> calls, with the default of the option, and the
  session after that method has stored an entry.
\<close>

definition history_mode_of :: "options \<Rightarrow> history_mode" where
  "history_mode_of opts = (case historyState opts of None \<Rightarrow> Replace | Some m \<Rightarrow> m)"

definition committed :: "history_mode \<Rightarrow> entry \<Rightarrow> session \<Rightarrow> session" where
  "committed mode e s =
     (case mode of
        Replace \<Rightarrow> s\<lparr>current := e\<rparr>
      | Push \<Rightarrow> \<lparr>back_entries = current s # back_entries s, current = e, forward_entries = []\<rparr>)"


section \<open>JavaScript strings\<close>

lemma usv_js: "usv (js s) = s"
  by (induction s) (simp_all add: usv_def js_def)

lemma js_usv: "well_formed v \<Longrightarrow> js (usv v) = v"
proof (induction v)
  case Nil
  show ?case by (simp add: usv_def js_def)
next
  case (Cons e v)
  then obtain c where "e = Byte c" by (cases e) (simp_all add: well_formed_def)
  with Cons show ?case by (simp add: usv_def js_def well_formed_def)
qed

section \<open>The codec of URLSearchParams\<close>

lemma below_16_cases:
  "(n::nat) < 16 \<Longrightarrow> n \<in> {0, 1, 2, 3, 4, 5, 6, 7, 8, 9, 10, 11, 12, 13, 14, 15}"
  by simp arith

lemma hex_value_digit: "n < 16 \<Longrightarrow> hex_value (hex_digits ! n) = Some n"
  by (drule below_16_cases) (elim insertE emptyE; simp add: hex_value_def hex_digits_def)

lemma hex_digit_mem:
  "n < 16 \<Longrightarrow> hex_digits ! n \<in> set ''0123456789ABCDEF''"
  by (drule below_16_cases) (elim insertE emptyE; simp add: hex_digits_def)

lemma percent_decode_encode_byte:
  "percent_decode (percent_encode_byte c @ r) = c # percent_decode r"
proof -
  have "(of_char c :: nat) < 256" by simp
  then have hi: "(of_char c :: nat) div 16 < 16" by arith
  have lo: "(of_char c :: nat) mod 16 < 16" by simp
  have "char_of (16 * (of_char c div 16) + (of_char c mod 16) :: nat) = c"
    by simp
  then show ?thesis
    by (simp add: percent_encode_byte_def hex_value_digit [OF hi] hex_value_digit [OF lo])
qed


lemma urlencode_simps:
  "urlencode [] = []"
  "urlencode (c # s) = urlencode_byte c @ urlencode s"
  "urlencode (s @ t) = urlencode s @ urlencode t"
  by (simp_all add: urlencode_def)

lemma urlencode_byte_chars:
  "x \<in> set (urlencode_byte c) \<Longrightarrow> urlencoded_safe x \<or> x = CHR ''+'' \<or> x = CHR ''%''"
proof -
  assume x: "x \<in> set (urlencode_byte c)"
  have "(of_char c :: nat) < 256" by simp
  then have hi: "(of_char c :: nat) div 16 < 16" by arith
  have lo: "(of_char c :: nat) mod 16 < 16" by simp
  have safe: "\<And>d. d \<in> set ''0123456789ABCDEF'' \<Longrightarrow> urlencoded_safe d"
    by (auto simp: urlencoded_safe_def)
  from x show ?thesis
    using safe [OF hex_digit_mem [OF hi]] safe [OF hex_digit_mem [OF lo]]
    by (auto simp: urlencode_byte_def percent_encode_byte_def split: if_splits)
qed

lemma urlencode_chars:
  "x \<in> set (urlencode s) \<Longrightarrow> urlencoded_safe x \<or> x = CHR ''+'' \<or> x = CHR ''%''"
  by (auto simp: urlencode_def dest: urlencode_byte_chars)

lemma urlencode_no_delimiter:
  "CHR ''&'' \<notin> set (urlencode s)" "CHR ''='' \<notin> set (urlencode s)"
  "CHR ''?'' \<notin> set (urlencode s)" "CHR ''#'' \<notin> set (urlencode s)"
  by (auto dest!: urlencode_chars simp: urlencoded_safe_def)

lemma plus_to_space_append:
  "plus_to_space (a @ b) = plus_to_space a @ plus_to_space b"
  by (simp add: plus_to_space_def)

lemma plus_to_space_encode_byte:
  "plus_to_space (percent_encode_byte c) = percent_encode_byte c"
proof -
  have "(of_char c :: nat) < 256" by simp
  then have hi: "(of_char c :: nat) div 16 < 16" by arith
  have lo: "(of_char c :: nat) mod 16 < 16" by simp
  show ?thesis
    using hex_digit_mem [OF hi] hex_digit_mem [OF lo]
    by (auto simp: plus_to_space_def percent_encode_byte_def)
qed

lemma urldecode_urlencode_byte:
  "percent_decode (plus_to_space (urlencode_byte c) @ r) = c # percent_decode r"
proof (cases "c = CHR '' ''")
  case True
  then show ?thesis by (simp add: urlencode_byte_def plus_to_space_def)
next
  case False
  show ?thesis
  proof (cases "urlencoded_safe c")
    case True
    then have "c \<noteq> CHR ''%''" "c \<noteq> CHR ''+''"
      by (auto simp: urlencoded_safe_def)
    with True False show ?thesis
      by (simp add: urlencode_byte_def plus_to_space_def)
  next
    case False
    with \<open>c \<noteq> CHR '' ''\<close> show ?thesis
      by (simp add: urlencode_byte_def plus_to_space_encode_byte percent_decode_encode_byte)
  qed
qed

lemma urldecode_urlencode: "urldecode (urlencode s) = s"
proof (induction s)
  case Nil
  show ?case by (simp add: urldecode_def urlencode_simps plus_to_space_def)
next
  case (Cons c s)
  then show ?case
    by (simp add: urldecode_def urlencode_simps plus_to_space_append urldecode_urlencode_byte)
qed


lemma takeWhile_until: "d \<notin> set a \<Longrightarrow> takeWhile (\<lambda>c. c \<noteq> d) (a @ d # b) = a"
  by (induction a) auto

lemma dropWhile_until: "d \<notin> set a \<Longrightarrow> dropWhile (\<lambda>c. c \<noteq> d) (a @ d # b) = d # b"
  by (induction a) auto

lemma takeWhile_all: "d \<notin> set a \<Longrightarrow> takeWhile (\<lambda>c. c \<noteq> d) a = a"
  by (induction a) auto

lemma dropWhile_all: "d \<notin> set a \<Longrightarrow> dropWhile (\<lambda>c. c \<noteq> d) a = []"
  by (induction a) auto

lemma parse_serialize_pair: "parse_pair (serialize_pair p) = p"
  by (simp add: parse_pair_def serialize_pair_def takeWhile_until dropWhile_until
      urlencode_no_delimiter urldecode_urlencode)

lemma split_on_no_delimiter: "d \<notin> set s \<Longrightarrow> split_on d s = [s]"
  by (induction s) auto

lemma split_on_append:
  "d \<notin> set a \<Longrightarrow> split_on d (a @ d # b) = a # split_on d b"
  by (induction a) auto

lemma serialize_pair_no_amp: "CHR ''&'' \<notin> set (serialize_pair p)"
  by (simp add: serialize_pair_def urlencode_no_delimiter)

lemma serialize_pair_nonempty: "serialize_pair p \<noteq> []"
  by (simp add: serialize_pair_def)

lemma split_on_toString:
  "ps \<noteq> [] \<Longrightarrow> split_on CHR ''&'' (params_toString ps) = map serialize_pair ps"
  by (induction ps rule: params_toString.induct)
     (simp_all add: split_on_no_delimiter split_on_append serialize_pair_no_amp)


lemma urlencoded_parse_toString: "urlencoded_parse (params_toString ps) = ps"
proof (cases "ps = []")
  case True
  then show ?thesis by (simp add: urlencoded_parse_def)
next
  case False
  have "filter (\<lambda>s. s \<noteq> []) (map serialize_pair ps) = map serialize_pair ps"
    by (simp add: filter_id_conv serialize_pair_nonempty)
  with False show ?thesis
    by (simp add: urlencoded_parse_def split_on_toString parse_serialize_pair map_idI)
qed

lemma params_toString_empty: "params_toString ps = [] \<longleftrightarrow> ps = []"
  by (induction ps rule: params_toString.induct) (simp_all add: serialize_pair_nonempty)

lemma URLSearchParams_empty: "URLSearchParams [] = []"
  by (simp add: URLSearchParams_def urlencoded_parse_def)

lemma URLSearchParams_toString:
  "URLSearchParams (CHR ''?'' # params_toString ps) = ps"
  by (simp add: URLSearchParams_def urlencoded_parse_toString)

lemma params_toString_chars: "CHR ''?'' \<notin> set (params_toString ps)"
  by (induction ps rule: params_toString.induct)
     (simp_all add: serialize_pair_def urlencode_no_delimiter)

section \<open>Operations on the parameter list\<close>

lemma resolve_eq:
  "resolve loc key val opts =
     (strip_trailing_slash (pathname loc) @ query_suffix (updated_params loc key val opts),
      resolved_value loc key val)"
  by (simp add: resolve_def updated_params_def resolved_value_def null_deletes_def query_suffix_def Let_def)

lemma query_suffix_empty: "query_suffix ps = [] \<longleftrightarrow> ps = []"
  by (simp add: query_suffix_def params_toString_empty)

lemma URLSearchParams_query_suffix: "URLSearchParams (query_suffix ps) = ps"
  by (cases "ps = []")
     (simp_all add: query_suffix_def params_toString_empty URLSearchParams_empty URLSearchParams_toString)

lemma resolve_url_target:
  assumes "CHR ''?'' \<notin> set p"
  shows "resolve_url base (p @ query_suffix ps) =
     (if p = [] \<and> ps = [] then Inr base
      else if p = [] then Inr \<lparr>pathname = pathname base, search = query_suffix ps\<rparr>
      else if take 2 p = ''//'' then Inl SecurityError
      else Inr \<lparr>pathname = p, search = query_suffix ps\<rparr>)"
proof (cases "ps = []")
  case True
  with assms show ?thesis
    by (simp add: resolve_url_def query_suffix_def takeWhile_all dropWhile_all)
next
  case False
  then have ne: "params_toString ps \<noteq> []" by (simp add: params_toString_empty)
  then have len: "\<not> length (CHR ''?'' # params_toString ps) \<le> 1" by (cases "params_toString ps") simp_all
  from assms ne len show ?thesis
    by (simp add: resolve_url_def query_suffix_def takeWhile_until dropWhile_until False)
qed

lemma strip_trailing_slash_set: "set (strip_trailing_slash p) \<subseteq> set p"
  by (auto simp: strip_trailing_slash_def dest: in_set_butlastD)

lemma params_delete_other: "filter (\<lambda>p. fst p \<noteq> k) (params_delete ps k) = filter (\<lambda>p. fst p \<noteq> k) ps"
  by (simp add: params_delete_def)

lemma params_set_other: "filter (\<lambda>p. fst p \<noteq> k) (params_set ps k v) = filter (\<lambda>p. fst p \<noteq> k) ps"
  by (induction ps) (auto simp: params_delete_def)

lemma params_set_key: "filter (\<lambda>p. fst p = k) (params_set ps k v) = [(k, v)]"
  by (induction ps) (auto simp: params_delete_def)

lemma params_get_set: "params_get (params_set ps k v) k = Str (js v)"
  by (induction ps) (auto simp: params_get_def)

lemma params_get_delete: "params_get (params_delete ps k) k = Null"
  by (induction ps) (auto simp: params_get_def params_delete_def)

lemma params_get_Null: "params_get ps k = Null \<longleftrightarrow> k \<notin> fst ` set ps"
  by (induction ps) (auto simp: params_get_def)

lemma params_delete_absent: "k \<notin> fst ` set ps \<Longrightarrow> params_delete ps k = ps"
  by (induction ps) (auto simp: params_delete_def)

lemma params_delete_idem: "params_delete (params_delete ps k) k = params_delete ps k"
  by (simp add: params_delete_def)

lemma params_get_first:
  "k \<notin> fst ` set pre \<Longrightarrow> params_get (pre @ (k, v) # post) k = Str (js v)"
  by (induction pre) (auto simp: params_get_def)

lemma params_set_once:
  "filter (\<lambda>p. fst p = k) ps = [(k, v)] \<Longrightarrow> params_set ps k v = ps"
proof (induction ps)
  case Nil
  then show ?case by simp
next
  case (Cons p ps)
  show ?case
  proof (cases "fst p = k")
    case True
    with Cons.prems have "p = (k, v)" "filter (\<lambda>p. fst p = k) ps = []" by auto
    then have "params_delete ps k = ps"
      by (auto simp: params_delete_def filter_empty_conv filter_id_conv)
    with \<open>p = (k, v)\<close> show ?thesis by simp
  next
    case False
    with Cons show ?thesis by simp
  qed
qed

lemma strip_root: "take 1 p = ''/'' \<Longrightarrow> strip_trailing_slash p = [] \<longleftrightarrow> p = ''/''"
  by (cases p) (auto simp: strip_trailing_slash_def split: if_splits)

lemma strip_no_double:
  "take 2 (rev p) \<noteq> ''//'' \<Longrightarrow>
   strip_trailing_slash (strip_trailing_slash p) = strip_trailing_slash p"
proof (cases p rule: rev_cases)
  case Nil
  then show ?thesis by (simp add: strip_trailing_slash_def)
next
  case (snoc q c)
  assume nd: "take 2 (rev p) \<noteq> ''//''"
  show ?thesis
  proof (cases q rule: rev_cases)
    case Nil
    with snoc show ?thesis by (simp add: strip_trailing_slash_def)
  next
    case (snoc r d)
    with \<open>p = q @ [c]\<close> have p: "p = (r @ [d]) @ [c]" by simp
    with nd have "\<not> (c = CHR ''/'' \<and> d = CHR ''/'')" by auto
    then show ?thesis
      unfolding p strip_trailing_slash_def butlast_snoc last_snoc by auto
  qed
qed

lemma resolve_navigate:
  assumes wf: "wf_location loc"
    and nav: "resolve_url loc (fst (resolve loc key val opts)) = Inr loc'"
  shows "(if strip_trailing_slash (pathname loc) = [] \<and> updated_params loc key val opts = []
          then loc' = loc
          else search loc' = query_suffix (updated_params loc key val opts) \<and>
               pathname loc' = (if pathname loc = ''/'' then ''/''
                                else strip_trailing_slash (pathname loc)))"
proof -
  from wf have q: "CHR ''?'' \<notin> set (strip_trailing_slash (pathname loc))"
    using strip_trailing_slash_set [of "pathname loc"] by (auto simp: wf_location_def)
  from wf have root: "strip_trailing_slash (pathname loc) = [] \<longleftrightarrow> pathname loc = ''/''"
    by (simp add: wf_location_def strip_root)
  from nav show ?thesis
    unfolding resolve_eq fst_conv resolve_url_target [OF q]
    by (auto simp: root split: if_splits)
qed

lemma navigate_params:
  assumes "wf_location loc"
    and "resolve_url loc (fst (resolve loc key val opts)) = Inr loc'"
    and "updated_params loc key val opts \<noteq> []"
  shows "URLSearchParams (search loc') = updated_params loc key val opts"
  using resolve_navigate [OF assms(1,2)] assms(3)
  by (simp add: URLSearchParams_query_suffix)

lemma navigate_params_weak:
  assumes "wf_location loc"
    and "resolve_url loc (fst (resolve loc key val opts)) = Inr loc'"
  shows "URLSearchParams (search loc') = updated_params loc key val opts \<or> loc' = loc"
  using resolve_navigate [OF assms(1,2)]
  by (auto simp: URLSearchParams_query_suffix split: if_splits)

lemma params_set_nonempty: "params_set ps k v \<noteq> []"
  by (cases ps) auto

lemma updated_params_other:
  "filter (\<lambda>p. fst p \<noteq> k) (updated_params loc k val opts) =
   filter (\<lambda>p. fst p \<noteq> k) (URLSearchParams (search loc))"
  by (simp add: updated_params_def params_delete_other params_set_other)

section \<open>The history methods\<close>

lemma handleParam_Inr:
  assumes "handleParam key val opts s = Inr (v, s')"
  shows "v = snd (resolve (url (current s)) key val opts) \<and>
         (\<exists>u. resolve_url (url (current s)) (fst (resolve (url (current s)) key val opts)) = Inr u \<and>
              s' = committed (history_mode_of opts) \<lparr>state = v, url = u\<rparr> s)"
  using assms
  by (auto simp: handleParam_def history_commit_def history_mode_of_def committed_def Let_def
      split: prod.splits sum.splits history_mode.splits)

lemma committed_Replace:
  "back_entries (committed Replace e s) = back_entries s"
  "forward_entries (committed Replace e s) = forward_entries s"
  "current (committed Replace e s) = e"
  "history_length (committed Replace e s) = history_length s"
  by (simp_all add: committed_def history_length_def)

lemma committed_Push:
  "back_entries (committed Push e s) = current s # back_entries s"
  "forward_entries (committed Push e s) = []"
  "current (committed Push e s) = e"
  "history_length (committed Push e s) = length (back_entries s) + 2"
  by (simp_all add: committed_def history_length_def)

lemma history_mode_of_merge:
  "history_mode_of (merge_options opts override) =
     (case historyState override of
        Some m \<Rightarrow> m
      | None \<Rightarrow> (case historyState opts of Some m \<Rightarrow> m | None \<Rightarrow> Replace))"
  by (simp add: history_mode_of_def merge_options_def split: option.splits)

section \<open>Reading back the committed URL\<close>

lemma params_get_filter:
  "params_get ps k = (case filter (\<lambda>p. fst p = k) ps of [] \<Rightarrow> Null | p # _ \<Rightarrow> Str (js (snd p)))"
  by (induction ps) (auto simp: params_get_def)

lemma read_keeps_params:
  assumes "length (filter (\<lambda>p. fst p = k) (URLSearchParams (search loc))) \<le> 1"
    and "null_deletes opts"
  shows "updated_params loc k Undefined opts = URLSearchParams (search loc)"
proof (cases "filter (\<lambda>p. fst p = k) (URLSearchParams (search loc))")
  case Nil
  then have "k \<notin> fst ` set (URLSearchParams (search loc))"
    by (auto simp: filter_empty_conv)
  with assms(2) show ?thesis
    by (simp add: updated_params_def resolved_value_def params_get_Null [THEN iffD2] params_delete_absent)
next
  case (Cons p rest)
  with assms(1) have f: "filter (\<lambda>p. fst p = k) (URLSearchParams (search loc)) = [p]" by simp
  then have "p \<in> set (filter (\<lambda>p. fst p = k) (URLSearchParams (search loc)))" by simp
  then have "fst p = k" by (simp only: set_filter mem_Collect_eq)
  then have p: "p = (k, snd p)" by (cases p) simp
  have g: "params_get (URLSearchParams (search loc)) k = Str (js (snd p))"
    by (simp add: params_get_filter f)
  from f p have "filter (\<lambda>p. fst p = k) (URLSearchParams (search loc)) = [(k, snd p)]" by simp
  then show ?thesis
    by (simp add: updated_params_def resolved_value_def g params_set_once usv_js)
qed

lemma navigate_pathname:
  assumes "wf_location loc"
    and "resolve_url loc (fst (resolve loc key val opts)) = Inr loc'"
  shows "pathname loc' = (if pathname loc = ''/'' then ''/'' else strip_trailing_slash (pathname loc))"
  using resolve_navigate [OF assms] assms(1)
  by (auto simp: wf_location_def strip_root split: if_splits)

lemma navigate_other:
  assumes "wf_location loc"
    and "resolve_url loc (fst (resolve loc k val opts)) = Inr loc'"
  shows "filter (\<lambda>p. fst p \<noteq> k) (URLSearchParams (search loc')) =
         filter (\<lambda>p. fst p \<noteq> k) (URLSearchParams (search loc))"
  using navigate_params_weak [OF assms] by (auto simp: updated_params_other)

lemma params_set_mem: "(k, v) \<in> set (params_set ps k v)"
  by (induction ps) auto

lemma updated_params_delete:
  "null_deletes opts \<Longrightarrow>
   updated_params loc k Null opts = params_delete (URLSearchParams (search loc)) k"
  by (simp add: updated_params_def resolved_value_def)

lemma updated_params_set:
  assumes "\<not> (val = Null \<and> null_deletes opts)"
    and "val = Undefined \<longrightarrow> k \<in> fst ` set (URLSearchParams (search loc))"
  shows "updated_params loc k val opts =
     params_set (URLSearchParams (search loc)) k (to_string (resolved_value loc k val))"
proof -
  have "\<not> (resolved_value loc k val = Null \<and> null_deletes opts)"
    using assms by (cases val) (auto simp: resolved_value_def params_get_Null)
  then show ?thesis by (auto simp: updated_params_def)
qed

section \<open>One call of handleParam and the URL\<close>

text \<open>
  What \<^verbatim>\<open>handleParam\<close> returns, and what the URL holds after it: a string is there as
  the single pair of the key; a deleting \<^verbatim>\<open>null\<close> removes the key at every path but the
  root.
\<close>

lemma handleParam_url:
  assumes "handleParam key val opts s = Inr (v, s')"
  shows "v = snd (resolve (url (current s)) key val opts) \<and>
         resolve_url (url (current s)) (fst (resolve (url (current s)) key val opts))
           = Inr (url (current s'))"
proof -
  from handleParam_Inr [OF assms] obtain u where
    u: "resolve_url (url (current s)) (fst (resolve (url (current s)) key val opts)) = Inr u"
    and s': "s' = committed (history_mode_of opts) \<lparr>state = v, url = u\<rparr> s"
    and v: "v = snd (resolve (url (current s)) key val opts)"
    by blast
  have "url (current s') = u"
    unfolding s' by (cases "history_mode_of opts") (simp_all add: committed_Replace committed_Push)
  with u v show ?thesis by simp
qed

lemma handleParam_string:
  assumes "wf_location (url (current s))"
    and "handleParam key (Str v) opts s = Inr (r, s')"
  shows "r = Str v \<and>
         filter (\<lambda>p. fst p = key) (URLSearchParams (search (url (current s'))))
           = [(key, usv v)]"
proof -
  have up: "updated_params (url (current s)) key (Str v) opts =
      params_set (URLSearchParams (search (url (current s)))) key (usv v)"
    by (simp add: updated_params_def resolved_value_def)
  from handleParam_url [OF assms(2)] have
    r: "r = snd (resolve (url (current s)) key (Str v) opts)" and
    n: "resolve_url (url (current s))
          (fst (resolve (url (current s)) key (Str v) opts)) = Inr (url (current s'))"
    by simp_all
  from navigate_params [OF assms(1) n] have
    "URLSearchParams (search (url (current s'))) =
       params_set (URLSearchParams (search (url (current s)))) key (usv v)"
    by (simp add: up params_set_nonempty)
  with r show ?thesis
    by (simp add: resolve_eq resolved_value_def params_set_key)
qed

lemma handleParam_delete:
  assumes "wf_location (url (current s))"
    and "handleParam key Null opts s = Inr (r, s')"
    and "null_deletes opts"
    and "pathname (url (current s)) \<noteq> ''/''"
  shows "r = Null \<and> key \<notin> fst ` set (URLSearchParams (search (url (current s'))))"
proof -
  let ?loc = "url (current s)"
  from handleParam_url [OF assms(2)] have
    r: "r = snd (resolve ?loc key Null opts)" and
    n: "resolve_url ?loc (fst (resolve ?loc key Null opts)) = Inr (url (current s'))"
    by simp_all
  from assms(1,4) have "strip_trailing_slash (pathname ?loc) \<noteq> []"
    by (simp add: wf_location_def strip_root)
  with resolve_navigate [OF assms(1) n] have
    "search (url (current s')) = query_suffix (updated_params ?loc key Null opts)"
    by simp
  then have "URLSearchParams (search (url (current s'))) =
      params_delete (URLSearchParams (search ?loc)) key"
    by (simp add: URLSearchParams_query_suffix updated_params_delete [OF assms(3)])
  with r show ?thesis
    by (auto simp: resolve_eq resolved_value_def params_delete_def)
qed

section \<open>The claims\<close>

subsection \<open>C1\<close>

text \<open>
  Claim C1: after a successful call of the setter with a string or a deleting
  \<^verbatim>\<open>null\<close>, the query string of the URL holds exactly the new value for the key, or not
  the key when it was deleted, and the state of the hook is that value. The code breaks
  this at the root path: there \<^verbatim>\<open>location.pathname.replace(/\/$/, ``)\<close> is empty, so
  deleting the last parameter gives the empty target, for which the history method keeps
  the URL of the document. The state becomes \<^verbatim>\<open>null\<close> while the URL still reads
  \<^verbatim>\<open>/?tag=x\<close>; the render that follows reads the key from that URL and leaves the URL
  as it is. At every other path the call of \<^verbatim>\<open>handleParam\<close> removes the key
  (\<open>handleParam_delete\<close>).
\<close>

theorem setQueryParam_delete_at_root:
  "setQueryParam
     \<lparr>hook_key = ''tag'', hook_value = Undefined, hook_options = no_options,
      param = Str (js ''x'')\<rparr>
     Null no_options (start_session \<lparr>pathname = ''/'', search = ''?tag=x''\<rparr>)
   = Inr (\<lparr>hook_key = ''tag'', hook_value = Undefined, hook_options = no_options,
           param = Null\<rparr>,
          \<lparr>back_entries = [],
           current = \<lparr>state = Str (js ''x''), url = \<lparr>pathname = ''/'', search = ''?tag=x''\<rparr>\<rparr>,
           forward_entries = []\<rparr>) \<and>
   params_get (URLSearchParams ''?tag=x'') ''tag'' = Str (js ''x'')"
  by code_simp

subsection \<open>C2\<close>

text \<open>
  Against claim C2 as stated: the first render calls \<^verbatim>\<open>handleParam\<close>, which always calls
  the history method. With the initial value \<^verbatim>\<open>"science"\<close> at \<^verbatim>\<open>/blog\<close> the current
  entry's URL becomes \<^verbatim>\<open>/blog?tag=science\<close>.
\<close>

theorem useQueryParam_commits_counterexample:
  "useQueryParam ''tag'' (Str (js ''science'')) no_options
     (start_session \<lparr>pathname = ''/blog'', search = ''''\<rparr>)
   = Inr (\<lparr>hook_key = ''tag'', hook_value = Str (js ''science''), hook_options = no_options, param = Str (js ''science'')\<rparr>,
          \<lparr>back_entries = [],
           current = \<lparr>state = Str (js ''science''),
                      url = \<lparr>pathname = ''/blog'', search = ''?tag=science''\<rparr>\<rparr>,
           forward_entries = []\<rparr>)"
  by code_simp

text \<open>
  Claim C2, amended: initialization makes one history commit with the options of the
  hook. With \<^verbatim>\<open>historyState\<close> \<^verbatim>\<open>replace\<close> (the default) the number of entries and the
  entries behind and ahead stay as they were, and the current entry is overwritten: its
  URL is the one the target of \<open>resolve\<close> names, its state and the state of the hook are
  the value \<open>resolve\<close> returns.
\<close>

theorem useQueryParam_replace_commit:
  assumes "useQueryParam key val opts s = Inr (hk, s')"
    and "historyState opts \<noteq> Some Push"
  shows "history_length s' = history_length s \<and>
         back_entries s' = back_entries s \<and> forward_entries s' = forward_entries s \<and>
         param hk = snd (resolve (url (current s)) key val opts) \<and>
         state (current s') = param hk \<and>
         resolve_url (url (current s)) (fst (resolve (url (current s)) key val opts))
           = Inr (url (current s'))"
proof -
  from assms(1) obtain v where
    h: "handleParam key val opts s = Inr (v, s')" and hk: "param hk = v"
    by (auto simp: useQueryParam_def split: sum.splits)
  from assms(2) have m: "history_mode_of opts = Replace"
    using history_mode.exhaust by (auto simp: history_mode_of_def split: option.splits)
  from handleParam_Inr [OF h] m hk show ?thesis
    by (auto simp: committed_Replace)
qed

theorem useQueryParam_replace_commit_witness:
  "useQueryParam ''tag'' Undefined no_options
     (start_session \<lparr>pathname = ''/blog/'', search = ''?tag=ml&sort=new''\<rparr>)
   = Inr (\<lparr>hook_key = ''tag'', hook_value = Undefined, hook_options = no_options, param = Str (js ''ml'')\<rparr>,
          \<lparr>back_entries = [],
           current = \<lparr>state = Str (js ''ml''), url = \<lparr>pathname = ''/blog'', search = ''?tag=ml&sort=new''\<rparr>\<rparr>,
           forward_entries = []\<rparr>) \<and>
   historyState no_options \<noteq> Some Push \<and>
   history_length
     \<lparr>back_entries = [],
      current = \<lparr>state = Str (js ''ml''), url = \<lparr>pathname = ''/blog'', search = ''?tag=ml&sort=new''\<rparr>\<rparr>,
      forward_entries = []\<rparr>
   = history_length (start_session \<lparr>pathname = ''/blog/'', search = ''?tag=ml&sort=new''\<rparr>)"
proof -
  have h: "useQueryParam ''tag'' Undefined no_options
     (start_session \<lparr>pathname = ''/blog/'', search = ''?tag=ml&sort=new''\<rparr>)
   = Inr (\<lparr>hook_key = ''tag'', hook_value = Undefined, hook_options = no_options, param = Str (js ''ml'')\<rparr>,
          \<lparr>back_entries = [],
           current = \<lparr>state = Str (js ''ml''), url = \<lparr>pathname = ''/blog'', search = ''?tag=ml&sort=new''\<rparr>\<rparr>,
           forward_entries = []\<rparr>)"
    by code_simp
  have m: "historyState no_options \<noteq> Some Push" by (simp add: no_options_def)
  from useQueryParam_replace_commit [OF h m] have "history_length
     \<lparr>back_entries = [],
      current = \<lparr>state = Str (js ''ml''), url = \<lparr>pathname = ''/blog'', search = ''?tag=ml&sort=new''\<rparr>\<rparr>,
      forward_entries = []\<rparr>
   = history_length (start_session \<lparr>pathname = ''/blog/'', search = ''?tag=ml&sort=new''\<rparr>)"
    by (rule conjunct1)
  with h m show ?thesis by (intro conjI)
qed

subsection \<open>C3\<close>

text \<open>
  Against claim C3 as stated: \<^verbatim>\<open>params.set\<close> converts the value to a \<^verbatim>\<open>USVString\<close>, so
  a surrogate outside a pair is written as U+FFFD. Writing the string of the one code
  unit \<^verbatim>\<open>D800\<close> at \<^verbatim>\<open>/blog\<close> gives \<^verbatim>\<open>/blog?tag=%EF%BF%BD\<close>, and reading there gives
  the string of U+FFFD, another string.
\<close>

theorem round_trip_surrogate_counterexample:
  "fst (resolve \<lparr>pathname = ''/blog'', search = ''''\<rparr> ''tag'' (Str [Surrogate (CHR 0xD8) (CHR 0x00)]) no_options)
     = ''/blog?tag=%EF%BF%BD'' \<and>
   resolve_url \<lparr>pathname = ''/blog'', search = ''''\<rparr> ''/blog?tag=%EF%BF%BD''
     = Inr \<lparr>pathname = ''/blog'', search = ''?tag=%EF%BF%BD''\<rparr> \<and>
   snd (resolve \<lparr>pathname = ''/blog'', search = ''?tag=%EF%BF%BD''\<rparr> ''tag'' Undefined no_options)
     = Str [Byte (CHR 0xEF), Byte (CHR 0xBF), Byte (CHR 0xBD)] \<and>
   Str [Byte (CHR 0xEF), Byte (CHR 0xBF), Byte (CHR 0xBD)] \<noteq> Str [Surrogate (CHR 0xD8) (CHR 0x00)]"
  by code_simp

text \<open>
  Claim C3, amended (round trip): for every URL, key \<open>k\<close> and well-formed string \<open>v\<close>
  (one without a surrogate outside a pair), after \<open>v\<close> is written for \<open>k\<close> and the history
  method has accepted the target, reading \<open>k\<close> at the resulting URL gives \<open>v\<close>, whatever
  the options of the two calls (so for \<^verbatim>\<open>{}\<close> too).
\<close>

theorem resolve_round_trip:
  assumes "wf_location loc"
    and "well_formed v"
    and "resolve_url loc (fst (resolve loc k (Str v) opts)) = Inr loc'"
  shows "snd (resolve loc' k Undefined opts') = Str v"
proof -
  have up: "updated_params loc k (Str v) opts =
      params_set (URLSearchParams (search loc)) k (usv v)"
    by (simp add: updated_params_def resolved_value_def)
  then have "URLSearchParams (search loc') = params_set (URLSearchParams (search loc)) k (usv v)"
    using navigate_params [OF assms(1,3)] by (simp add: params_set_nonempty)
  then show ?thesis
    by (simp add: resolve_eq resolved_value_def params_get_set js_usv [OF assms(2)])
qed

theorem resolve_round_trip_witness:
  "wf_location \<lparr>pathname = ''/blog/'', search = ''?tag=js&page=2''\<rparr> \<and>
   well_formed (js ''a b&c'') \<and>
   resolve_url \<lparr>pathname = ''/blog/'', search = ''?tag=js&page=2''\<rparr>
     (fst (resolve \<lparr>pathname = ''/blog/'', search = ''?tag=js&page=2''\<rparr> ''tag''
            (Str (js ''a b&c'')) no_options))
     = Inr \<lparr>pathname = ''/blog'', search = ''?tag=a+b%26c&page=2''\<rparr> \<and>
   snd (resolve \<lparr>pathname = ''/blog'', search = ''?tag=a+b%26c&page=2''\<rparr> ''tag'' Undefined no_options)
     = Str (js ''a b&c'')"
proof -
  have h1: "wf_location \<lparr>pathname = ''/blog/'', search = ''?tag=js&page=2''\<rparr>"
    by code_simp
  have h2: "well_formed (js ''a b&c'')"
    by code_simp
  have h3: "resolve_url \<lparr>pathname = ''/blog/'', search = ''?tag=js&page=2''\<rparr>
     (fst (resolve \<lparr>pathname = ''/blog/'', search = ''?tag=js&page=2''\<rparr> ''tag''
            (Str (js ''a b&c'')) no_options))
     = Inr \<lparr>pathname = ''/blog'', search = ''?tag=a+b%26c&page=2''\<rparr>"
    by code_simp
  from h1 h2 h3 resolve_round_trip [OF h1 h2 h3, of no_options] show ?thesis by (intro conjI)
qed

subsection \<open>C4\<close>

text \<open>
  Against claim C4 as stated: \<^verbatim>\<open>params.get\<close> returns the first value of a name, so at
  \<^verbatim>\<open>?a=1&a=2\<close> a read of \<^verbatim>\<open>a\<close> gives \<^verbatim>\<open>"1"\<close>, not the last value \<^verbatim>\<open>"2"\<close>.
\<close>

theorem read_duplicate_key_counterexample:
  "URLSearchParams ''?a=1&a=2'' = [(''a'', ''1''), (''a'', ''2'')] \<and>
   snd (resolve \<lparr>pathname = ''/blog'', search = ''?a=1&a=2''\<rparr> ''a'' Undefined no_options) = Str (js ''1'')"
  by code_simp

text \<open>
  Claim C4, amended: when the query string holds the key more than once, the first
  occurrence wins: a read returns the value of the first pair of that name.
\<close>

theorem read_first_occurrence:
  assumes "URLSearchParams (search loc) = pre @ (k, v) # post"
    and "k \<notin> fst ` set pre"
  shows "snd (resolve loc k Undefined opts) = Str (js v)"
  using assms by (simp add: resolve_eq resolved_value_def params_get_first)

theorem read_first_occurrence_witness:
  "URLSearchParams (search \<lparr>pathname = ''/blog'', search = ''?b=0&a=1&a=2''\<rparr>)
     = [(''b'', ''0'')] @ (''a'', ''1'') # [(''a'', ''2'')] \<and>
   ''a'' \<notin> fst ` set [(''b'', ''0'')] \<and>
   snd (resolve \<lparr>pathname = ''/blog'', search = ''?b=0&a=1&a=2''\<rparr> ''a'' Undefined no_options) = Str (js ''1'')"
proof -
  have h1: "URLSearchParams (search \<lparr>pathname = ''/blog'', search = ''?b=0&a=1&a=2''\<rparr>)
     = [(''b'', ''0'')] @ (''a'', ''1'') # [(''a'', ''2'')]"
    by code_simp
  have h2: "''a'' \<notin> fst ` set [(''b'', ''0'')]" by simp
  from read_first_occurrence [OF h1 h2, of no_options] h1 h2 show ?thesis by (intro conjI)
qed

subsection \<open>C5\<close>

text \<open>
  Against claim C5 as stated: with \<^verbatim>\<open>nullDeletes\<close> false the code takes the branch
  \<^verbatim>\<open>params.set(key, value)\<close>, which writes the string \<^verbatim>\<open>"null"\<close>.
\<close>

theorem null_without_nullDeletes_counterexample:
  "resolve \<lparr>pathname = ''/blog'', search = ''''\<rparr> ''tag'' Null
     \<lparr>historyState = None, nullDeletes = Some False\<rparr> = (''/blog?tag=null'', Null)"
  by code_simp

text \<open>
  Claim C5, amended: when \<^verbatim>\<open>nullDeletes\<close> is false and the requested value is
  \<^verbatim>\<open>null\<close>, the key is set to the string \<^verbatim>\<open>"null"\<close> (one pair of that name in the
  resulting URL), the pairs of the other keys stay as they were, and the value returned
  is \<^verbatim>\<open>null\<close>.
\<close>

theorem null_without_nullDeletes:
  assumes "nullDeletes opts = Some False"
    and "wf_location loc"
    and "resolve_url loc (fst (resolve loc k Null opts)) = Inr loc'"
  shows "snd (resolve loc k Null opts) = Null \<and>
         filter (\<lambda>p. fst p = k) (URLSearchParams (search loc')) = [(k, ''null'')] \<and>
         filter (\<lambda>p. fst p \<noteq> k) (URLSearchParams (search loc')) =
           filter (\<lambda>p. fst p \<noteq> k) (URLSearchParams (search loc))"
proof -
  from assms(1) have up: "updated_params loc k Null opts =
      params_set (URLSearchParams (search loc)) k ''null''"
    by (simp add: updated_params_def resolved_value_def null_deletes_def)
  then have "URLSearchParams (search loc') = params_set (URLSearchParams (search loc)) k ''null''"
    using navigate_params [OF assms(2,3)] by (simp add: params_set_nonempty)
  then show ?thesis
    by (simp add: resolve_eq resolved_value_def params_set_key params_set_other)
qed

theorem null_without_nullDeletes_witness:
  "nullDeletes \<lparr>historyState = None, nullDeletes = Some False\<rparr> = Some False \<and>
   wf_location \<lparr>pathname = ''/blog'', search = ''?tag=js&page=2''\<rparr> \<and>
   resolve_url \<lparr>pathname = ''/blog'', search = ''?tag=js&page=2''\<rparr>
     (fst (resolve \<lparr>pathname = ''/blog'', search = ''?tag=js&page=2''\<rparr> ''tag'' Null
            \<lparr>historyState = None, nullDeletes = Some False\<rparr>))
     = Inr \<lparr>pathname = ''/blog'', search = ''?tag=null&page=2''\<rparr> \<and>
   filter (\<lambda>p. fst p = ''tag'')
     (URLSearchParams (search \<lparr>pathname = ''/blog'', search = ''?tag=null&page=2''\<rparr>))
     = [(''tag'', ''null'')]"
proof -
  have h1: "nullDeletes \<lparr>historyState = None, nullDeletes = Some False\<rparr> = Some False" by simp
  have h2: "wf_location \<lparr>pathname = ''/blog'', search = ''?tag=js&page=2''\<rparr>" by code_simp
  have h3: "resolve_url \<lparr>pathname = ''/blog'', search = ''?tag=js&page=2''\<rparr>
     (fst (resolve \<lparr>pathname = ''/blog'', search = ''?tag=js&page=2''\<rparr> ''tag'' Null
            \<lparr>historyState = None, nullDeletes = Some False\<rparr>))
     = Inr \<lparr>pathname = ''/blog'', search = ''?tag=null&page=2''\<rparr>"
    by code_simp
  from null_without_nullDeletes [OF h1 h2 h3] have
    "filter (\<lambda>p. fst p = ''tag'')
       (URLSearchParams (search \<lparr>pathname = ''/blog'', search = ''?tag=null&page=2''\<rparr>))
     = [(''tag'', ''null'')]"
    by blast
  with h1 h2 h3 show ?thesis by (intro conjI)
qed

subsection \<open>C6\<close>

text \<open>
  Against claim C6 as stated: the code strips one trailing slash from the path, so at
  \<^verbatim>\<open>/blog/?tag=js&page=2\<close> the resulting URL has the path \<^verbatim>\<open>/blog\<close>.
\<close>

theorem trailing_slash_counterexample:
  "resolve_url \<lparr>pathname = ''/blog/'', search = ''?tag=js&page=2''\<rparr>
     (fst (resolve \<lparr>pathname = ''/blog/'', search = ''?tag=js&page=2''\<rparr> ''page'' (Str (js ''3'')) no_options))
   = Inr \<lparr>pathname = ''/blog'', search = ''?tag=js&page=3''\<rparr>"
  by code_simp

text \<open>
  Claim C6, amended: for every URL, key and requested value, the resulting URL has the
  path of the URL with one trailing slash stripped (the root path stays), and every pair
  of another key is there unchanged, in value and in relative order; in particular
  writing \<^verbatim>\<open>page=3\<close> at \<^verbatim>\<open>/blog?tag=js&page=2\<close> gives \<^verbatim>\<open>/blog?tag=js&page=3\<close>.
\<close>

theorem resolve_preserves_others:
  "(wf_location loc \<and> resolve_url loc (fst (resolve loc k val opts)) = Inr loc' \<longrightarrow>
      pathname loc' = (if pathname loc = ''/'' then ''/'' else strip_trailing_slash (pathname loc)) \<and>
      filter (\<lambda>p. fst p \<noteq> k) (URLSearchParams (search loc')) =
        filter (\<lambda>p. fst p \<noteq> k) (URLSearchParams (search loc))) \<and>
   fst (resolve \<lparr>pathname = ''/blog'', search = ''?tag=js&page=2''\<rparr> ''page'' (Str (js ''3'')) no_options)
     = ''/blog?tag=js&page=3''"
proof (intro conjI impI)
  show "fst (resolve \<lparr>pathname = ''/blog'', search = ''?tag=js&page=2''\<rparr> ''page'' (Str (js ''3'')) no_options)
     = ''/blog?tag=js&page=3''"
    by code_simp
next
  assume a: "wf_location loc \<and> resolve_url loc (fst (resolve loc k val opts)) = Inr loc'"
  then have wf: "wf_location loc"
    and nav: "resolve_url loc (fst (resolve loc k val opts)) = Inr loc'"
    by simp_all
  show "pathname loc' = (if pathname loc = ''/'' then ''/'' else strip_trailing_slash (pathname loc))"
    by (rule navigate_pathname [OF wf nav])
  show "filter (\<lambda>p. fst p \<noteq> k) (URLSearchParams (search loc')) =
        filter (\<lambda>p. fst p \<noteq> k) (URLSearchParams (search loc))"
    by (rule navigate_other [OF wf nav])
qed

theorem resolve_preserves_others_witness:
  "wf_location \<lparr>pathname = ''/blog/'', search = ''?tag=js&page=2&tag=ml''\<rparr> \<and>
   resolve_url \<lparr>pathname = ''/blog/'', search = ''?tag=js&page=2&tag=ml''\<rparr>
     (fst (resolve \<lparr>pathname = ''/blog/'', search = ''?tag=js&page=2&tag=ml''\<rparr> ''tag'' (Str (js ''css'')) no_options))
     = Inr \<lparr>pathname = ''/blog'', search = ''?tag=css&page=2''\<rparr> \<and>
   filter (\<lambda>p. fst p \<noteq> ''tag'')
     (URLSearchParams (search \<lparr>pathname = ''/blog'', search = ''?tag=css&page=2''\<rparr>)) =
   filter (\<lambda>p. fst p \<noteq> ''tag'')
     (URLSearchParams (search \<lparr>pathname = ''/blog/'', search = ''?tag=js&page=2&tag=ml''\<rparr>))"
proof -
  have h1: "wf_location \<lparr>pathname = ''/blog/'', search = ''?tag=js&page=2&tag=ml''\<rparr>"
    by code_simp
  have h2: "resolve_url \<lparr>pathname = ''/blog/'', search = ''?tag=js&page=2&tag=ml''\<rparr>
     (fst (resolve \<lparr>pathname = ''/blog/'', search = ''?tag=js&page=2&tag=ml''\<rparr> ''tag'' (Str (js ''css'')) no_options))
     = Inr \<lparr>pathname = ''/blog'', search = ''?tag=css&page=2''\<rparr>"
    by code_simp
  from resolve_preserves_others
    [of "\<lparr>pathname = ''/blog/'', search = ''?tag=js&page=2&tag=ml''\<rparr>" "''tag''" "Str (js ''css'')"
        no_options "\<lparr>pathname = ''/blog'', search = ''?tag=css&page=2''\<rparr>"] h1 h2
  have "filter (\<lambda>p. fst p \<noteq> ''tag'')
     (URLSearchParams (search \<lparr>pathname = ''/blog'', search = ''?tag=css&page=2''\<rparr>)) =
   filter (\<lambda>p. fst p \<noteq> ''tag'')
     (URLSearchParams (search \<lparr>pathname = ''/blog/'', search = ''?tag=js&page=2&tag=ml''\<rparr>))"
    by blast
  with h1 h2 show ?thesis by (intro conjI)
qed

subsection \<open>C7\<close>

text \<open>
  Against claim C7 as stated: after reading, the code calls \<^verbatim>\<open>params.set\<close> with the value
  read, which drops the later pairs of the key: a read of \<^verbatim>\<open>tag\<close> at
  \<^verbatim>\<open>/blog?tag=js&tag=ml&page=2\<close> gives the URL \<^verbatim>\<open>/blog?tag=js&page=2\<close>.
\<close>

theorem read_drops_duplicates_counterexample:
  "resolve \<lparr>pathname = ''/blog'', search = ''?tag=js&tag=ml&page=2''\<rparr> ''tag'' Undefined no_options
     = (''/blog?tag=js&page=2'', Str (js ''js''))"
  by code_simp

text \<open>
  Claim C7, amended: a read returns the value of the first pair of the key, or
  \<^verbatim>\<open>null\<close> when the key is absent. With \<^verbatim>\<open>nullDeletes\<close> true and a key that occurs at
  most once, the pairs of the resulting URL are those of the URL, and its path is the
  path with one trailing slash stripped (the root path stays); in particular a read
  of \<^verbatim>\<open>tag\<close> at \<^verbatim>\<open>/blog\<close> gives \<^verbatim>\<open>null\<close> and the target \<^verbatim>\<open>/blog\<close>.
\<close>

theorem read_request:
  "snd (resolve loc k Undefined opts) =
     (case filter (\<lambda>p. fst p = k) (URLSearchParams (search loc)) of
        [] \<Rightarrow> Null
      | p # _ \<Rightarrow> Str (js (snd p))) \<and>
   (wf_location loc \<and> null_deletes opts \<and>
    length (filter (\<lambda>p. fst p = k) (URLSearchParams (search loc))) \<le> 1 \<and>
    resolve_url loc (fst (resolve loc k Undefined opts)) = Inr loc' \<longrightarrow>
      URLSearchParams (search loc') = URLSearchParams (search loc) \<and>
      pathname loc' = (if pathname loc = ''/'' then ''/'' else strip_trailing_slash (pathname loc))) \<and>
   resolve \<lparr>pathname = ''/blog'', search = ''''\<rparr> ''tag'' Undefined no_options = (''/blog'', Null)"
proof (intro conjI impI)
  show "snd (resolve loc k Undefined opts) =
     (case filter (\<lambda>p. fst p = k) (URLSearchParams (search loc)) of
        [] \<Rightarrow> Null
      | p # _ \<Rightarrow> Str (js (snd p)))"
    by (simp add: resolve_eq resolved_value_def params_get_filter)
  show "resolve \<lparr>pathname = ''/blog'', search = ''''\<rparr> ''tag'' Undefined no_options = (''/blog'', Null)"
    by code_simp
next
  assume a: "wf_location loc \<and> null_deletes opts \<and>
    length (filter (\<lambda>p. fst p = k) (URLSearchParams (search loc))) \<le> 1 \<and>
    resolve_url loc (fst (resolve loc k Undefined opts)) = Inr loc'"
  then have up: "updated_params loc k Undefined opts = URLSearchParams (search loc)"
    by (simp add: read_keeps_params)
  from a navigate_params_weak [of loc k Undefined opts loc']
  show "URLSearchParams (search loc') = URLSearchParams (search loc)"
    by (auto simp: up)
  from a have wf: "wf_location loc"
    and nav: "resolve_url loc (fst (resolve loc k Undefined opts)) = Inr loc'"
    by simp_all
  show "pathname loc' = (if pathname loc = ''/'' then ''/'' else strip_trailing_slash (pathname loc))"
    by (rule navigate_pathname [OF wf nav])
qed

theorem read_request_witness:
  "wf_location \<lparr>pathname = ''/blog/'', search = ''?tag=js&page''\<rparr> \<and>
   null_deletes no_options \<and>
   length (filter (\<lambda>p. fst p = ''tag'')
     (URLSearchParams (search \<lparr>pathname = ''/blog/'', search = ''?tag=js&page''\<rparr>))) \<le> 1 \<and>
   resolve_url \<lparr>pathname = ''/blog/'', search = ''?tag=js&page''\<rparr>
     (fst (resolve \<lparr>pathname = ''/blog/'', search = ''?tag=js&page''\<rparr> ''tag'' Undefined no_options))
     = Inr \<lparr>pathname = ''/blog'', search = ''?tag=js&page=''\<rparr> \<and>
   URLSearchParams (search \<lparr>pathname = ''/blog'', search = ''?tag=js&page=''\<rparr>)
     = URLSearchParams (search \<lparr>pathname = ''/blog/'', search = ''?tag=js&page''\<rparr>)"
proof -
  have h1: "wf_location \<lparr>pathname = ''/blog/'', search = ''?tag=js&page''\<rparr>" by code_simp
  have h2: "null_deletes no_options" by code_simp
  have h3: "length (filter (\<lambda>p. fst p = ''tag'')
     (URLSearchParams (search \<lparr>pathname = ''/blog/'', search = ''?tag=js&page''\<rparr>))) \<le> 1"
    by code_simp
  have h4: "resolve_url \<lparr>pathname = ''/blog/'', search = ''?tag=js&page''\<rparr>
     (fst (resolve \<lparr>pathname = ''/blog/'', search = ''?tag=js&page''\<rparr> ''tag'' Undefined no_options))
     = Inr \<lparr>pathname = ''/blog'', search = ''?tag=js&page=''\<rparr>"
    by code_simp
  from read_request
    [of "\<lparr>pathname = ''/blog/'', search = ''?tag=js&page''\<rparr>" "''tag''" no_options
        "\<lparr>pathname = ''/blog'', search = ''?tag=js&page=''\<rparr>"] h1 h2 h3 h4
  have "URLSearchParams (search \<lparr>pathname = ''/blog'', search = ''?tag=js&page=''\<rparr>)
     = URLSearchParams (search \<lparr>pathname = ''/blog/'', search = ''?tag=js&page''\<rparr>)"
    by blast
  with h1 h2 h3 h4 show ?thesis by (intro conjI)
qed

subsection \<open>C8\<close>

text \<open>
  Claim C8: a call of the setter commits once, with the mode of the merged options:
  \<^verbatim>\<open>push\<close> adds exactly one entry, \<^verbatim>\<open>replace\<close> overwrites the current one and keeps the
  number of entries. The post says the same: with \<^verbatim>\<open>push\<close>, one press of the back button
  for every call of the setter. The code breaks this: the setter changes the state, the
  component renders again, and the render evaluates
  \<^verbatim>\<open>handleParam(key, value, options)\<close> once more, which commits with the mode of the
  hook. For a hook with \<^verbatim>\<open>historyState\<close> \<^verbatim>\<open>push\<close> at \<^verbatim>\<open>/blog?tag=ml\<close>, whose first
  render leaves two entries, one call of the setter with \<^verbatim>\<open>"css"\<close> leaves four.
\<close>

theorem setQueryParam_push_twice:
  "useQueryParam ''tag'' Undefined \<lparr>historyState = Some Push, nullDeletes = None\<rparr>
     (start_session \<lparr>pathname = ''/blog'', search = ''?tag=ml''\<rparr>)
   = Inr (\<lparr>hook_key = ''tag'', hook_value = Undefined,
           hook_options = \<lparr>historyState = Some Push, nullDeletes = None\<rparr>,
           param = Str (js ''ml'')\<rparr>,
          \<lparr>back_entries =
             [\<lparr>state = Null, url = \<lparr>pathname = ''/blog'', search = ''?tag=ml''\<rparr>\<rparr>],
           current = \<lparr>state = Str (js ''ml''), url = \<lparr>pathname = ''/blog'', search = ''?tag=ml''\<rparr>\<rparr>,
           forward_entries = []\<rparr>) \<and>
   setQueryParam
     \<lparr>hook_key = ''tag'', hook_value = Undefined,
      hook_options = \<lparr>historyState = Some Push, nullDeletes = None\<rparr>,
      param = Str (js ''ml'')\<rparr>
     (Str (js ''css'')) no_options
     \<lparr>back_entries =
        [\<lparr>state = Null, url = \<lparr>pathname = ''/blog'', search = ''?tag=ml''\<rparr>\<rparr>],
      current = \<lparr>state = Str (js ''ml''), url = \<lparr>pathname = ''/blog'', search = ''?tag=ml''\<rparr>\<rparr>,
      forward_entries = []\<rparr>
   = Inr (\<lparr>hook_key = ''tag'', hook_value = Undefined,
           hook_options = \<lparr>historyState = Some Push, nullDeletes = None\<rparr>,
           param = Str (js ''css'')\<rparr>,
          \<lparr>back_entries =
             [\<lparr>state = Str (js ''css''), url = \<lparr>pathname = ''/blog'', search = ''?tag=css''\<rparr>\<rparr>,
              \<lparr>state = Str (js ''ml''), url = \<lparr>pathname = ''/blog'', search = ''?tag=ml''\<rparr>\<rparr>,
              \<lparr>state = Null, url = \<lparr>pathname = ''/blog'', search = ''?tag=ml''\<rparr>\<rparr>],
           current = \<lparr>state = Str (js ''css''), url = \<lparr>pathname = ''/blog'', search = ''?tag=css''\<rparr>\<rparr>,
           forward_entries = []\<rparr>) \<and>
   history_length
     \<lparr>back_entries =
        [\<lparr>state = Null, url = \<lparr>pathname = ''/blog'', search = ''?tag=ml''\<rparr>\<rparr>],
      current = \<lparr>state = Str (js ''ml''), url = \<lparr>pathname = ''/blog'', search = ''?tag=ml''\<rparr>\<rparr>,
      forward_entries = []\<rparr> = 2 \<and>
   history_length
     \<lparr>back_entries =
        [\<lparr>state = Str (js ''css''), url = \<lparr>pathname = ''/blog'', search = ''?tag=css''\<rparr>\<rparr>,
         \<lparr>state = Str (js ''ml''), url = \<lparr>pathname = ''/blog'', search = ''?tag=ml''\<rparr>\<rparr>,
         \<lparr>state = Null, url = \<lparr>pathname = ''/blog'', search = ''?tag=ml''\<rparr>\<rparr>],
      current = \<lparr>state = Str (js ''css''), url = \<lparr>pathname = ''/blog'', search = ''?tag=css''\<rparr>\<rparr>,
      forward_entries = []\<rparr> = 4"
  by code_simp

subsection \<open>C9\<close>

text \<open>
  Against claim C9 as stated: one call strips one slash, so at a path that ends in two
  slashes the second deletion gives another URL: \<^verbatim>\<open>/blog//?tag=x\<close> becomes
  \<^verbatim>\<open>/blog/\<close>, and \<^verbatim>\<open>/blog/\<close> becomes \<^verbatim>\<open>/blog\<close>.
\<close>

theorem delete_twice_counterexample:
  "fst (resolve \<lparr>pathname = ''/blog//'', search = ''?tag=x''\<rparr> ''tag'' Null
          \<lparr>historyState = None, nullDeletes = Some True\<rparr>) = ''/blog/'' \<and>
   resolve_url \<lparr>pathname = ''/blog//'', search = ''?tag=x''\<rparr> ''/blog/''
     = Inr \<lparr>pathname = ''/blog/'', search = ''''\<rparr> \<and>
   fst (resolve \<lparr>pathname = ''/blog/'', search = ''''\<rparr> ''tag'' Null
          \<lparr>historyState = None, nullDeletes = Some True\<rparr>) = ''/blog''"
  by code_simp

text \<open>
  Claim C9, amended: for every URL whose path does not end in two slashes and every key,
  deleting the key at the URL that one deletion has produced gives the same target again.
\<close>

theorem delete_idempotent:
  assumes wf: "wf_location loc"
    and nd: "null_deletes opts"
    and slashes: "take 2 (rev (pathname loc)) \<noteq> ''//''"
    and nav: "resolve_url loc (fst (resolve loc k Null opts)) = Inr loc'"
  shows "fst (resolve loc' k Null opts) = fst (resolve loc k Null opts)"
proof (cases "strip_trailing_slash (pathname loc) = [] \<and> updated_params loc k Null opts = []")
  case True
  with resolve_navigate [OF wf nav] show ?thesis by simp
next
  case False
  with resolve_navigate [OF wf nav] have
    srch: "search loc' = query_suffix (updated_params loc k Null opts)" and
    path: "pathname loc' = (if pathname loc = ''/'' then ''/''
                            else strip_trailing_slash (pathname loc))"
    by simp_all
  have "updated_params loc' k Null opts = updated_params loc k Null opts"
    by (simp add: updated_params_delete [OF nd] srch URLSearchParams_query_suffix params_delete_idem)
  moreover have "strip_trailing_slash (pathname loc') = strip_trailing_slash (pathname loc)"
  proof (cases "pathname loc = ''/''")
    case True
    with path show ?thesis by simp
  next
    case False
    with path strip_no_double [OF slashes] show ?thesis by simp
  qed
  ultimately show ?thesis by (simp add: resolve_eq)
qed

theorem delete_idempotent_witness:
  "wf_location \<lparr>pathname = ''/blog/'', search = ''?tag=js&page=2&tag=ml''\<rparr> \<and>
   null_deletes \<lparr>historyState = None, nullDeletes = Some True\<rparr> \<and>
   take 2 (rev (pathname \<lparr>pathname = ''/blog/'', search = ''?tag=js&page=2&tag=ml''\<rparr>)) \<noteq> ''//'' \<and>
   resolve_url \<lparr>pathname = ''/blog/'', search = ''?tag=js&page=2&tag=ml''\<rparr>
     (fst (resolve \<lparr>pathname = ''/blog/'', search = ''?tag=js&page=2&tag=ml''\<rparr> ''tag'' Null
            \<lparr>historyState = None, nullDeletes = Some True\<rparr>))
     = Inr \<lparr>pathname = ''/blog'', search = ''?page=2''\<rparr> \<and>
   fst (resolve \<lparr>pathname = ''/blog'', search = ''?page=2''\<rparr> ''tag'' Null
          \<lparr>historyState = None, nullDeletes = Some True\<rparr>)
     = fst (resolve \<lparr>pathname = ''/blog/'', search = ''?tag=js&page=2&tag=ml''\<rparr> ''tag'' Null
          \<lparr>historyState = None, nullDeletes = Some True\<rparr>)"
proof -
  have h1: "wf_location \<lparr>pathname = ''/blog/'', search = ''?tag=js&page=2&tag=ml''\<rparr>"
    by code_simp
  have h2: "null_deletes \<lparr>historyState = None, nullDeletes = Some True\<rparr>" by code_simp
  have h3: "take 2 (rev (pathname \<lparr>pathname = ''/blog/'', search = ''?tag=js&page=2&tag=ml''\<rparr>)) \<noteq> ''//''"
    by code_simp
  have h4: "resolve_url \<lparr>pathname = ''/blog/'', search = ''?tag=js&page=2&tag=ml''\<rparr>
     (fst (resolve \<lparr>pathname = ''/blog/'', search = ''?tag=js&page=2&tag=ml''\<rparr> ''tag'' Null
            \<lparr>historyState = None, nullDeletes = Some True\<rparr>))
     = Inr \<lparr>pathname = ''/blog'', search = ''?page=2''\<rparr>"
    by code_simp
  from h1 h2 h3 h4 delete_idempotent [OF h1 h2 h3 h4] show ?thesis by (intro conjI)
qed

subsection \<open>C10\<close>

text \<open>
  Claim C10: requesting the empty string keeps the key: the value returned is the empty
  string, the target has a query, in which the key has the single pair with the empty
  value, serialized as the encoded key followed by \<^verbatim>\<open>=\<close>, and so has the resulting URL.
  A key of the URL that the resulting URL does not have was deleted by \<^verbatim>\<open>null\<close> with
  \<^verbatim>\<open>nullDeletes\<close> true.
\<close>

theorem empty_string_keeps_key:
  "snd (resolve loc k (Str (js '''')) opts) = Str (js '''') \<and>
   fst (resolve loc k (Str (js '''')) opts) =
     strip_trailing_slash (pathname loc) @ ''?'' @
       params_toString (params_set (URLSearchParams (search loc)) k '''') \<and>
   filter (\<lambda>p. fst p = k) (params_set (URLSearchParams (search loc)) k '''') = [(k, '''')] \<and>
   serialize_pair (k, '''') = urlencode k @ ''='' \<and>
   (wf_location loc \<and> resolve_url loc (fst (resolve loc k (Str (js '''')) opts)) = Inr loc' \<longrightarrow>
      filter (\<lambda>p. fst p = k) (URLSearchParams (search loc')) = [(k, '''')]) \<and>
   (wf_location loc \<and> resolve_url loc (fst (resolve loc k val opts)) = Inr loc'' \<and>
    k \<in> fst ` set (URLSearchParams (search loc)) \<and>
    k \<notin> fst ` set (URLSearchParams (search loc'')) \<longrightarrow>
      val = Null \<and> null_deletes opts)"
proof (intro conjI impI)
  have up: "updated_params loc k (Str (js '''')) opts = params_set (URLSearchParams (search loc)) k ''''"
    by (simp add: updated_params_def resolved_value_def usv_js)
  show "snd (resolve loc k (Str (js '''')) opts) = Str (js '''')"
    by (simp add: resolve_eq resolved_value_def)
  show "fst (resolve loc k (Str (js '''')) opts) =
     strip_trailing_slash (pathname loc) @ ''?'' @
       params_toString (params_set (URLSearchParams (search loc)) k '''')"
    by (simp add: resolve_eq up query_suffix_def params_toString_empty params_set_nonempty)
  show "filter (\<lambda>p. fst p = k) (params_set (URLSearchParams (search loc)) k '''') = [(k, '''')]"
    by (rule params_set_key)
  show "serialize_pair (k, '''') = urlencode k @ ''=''"
    by (simp add: serialize_pair_def urlencode_simps)
  {
    assume a: "wf_location loc \<and> resolve_url loc (fst (resolve loc k (Str (js '''')) opts)) = Inr loc'"
    then have "URLSearchParams (search loc') = params_set (URLSearchParams (search loc)) k ''''"
      using navigate_params [of loc k "Str (js '''')" opts loc'] by (simp add: up params_set_nonempty)
    then show "filter (\<lambda>p. fst p = k) (URLSearchParams (search loc')) = [(k, '''')]"
      by (simp add: params_set_key)
  }
  {
    assume a: "wf_location loc \<and> resolve_url loc (fst (resolve loc k val opts)) = Inr loc'' \<and>
      k \<in> fst ` set (URLSearchParams (search loc)) \<and>
      k \<notin> fst ` set (URLSearchParams (search loc''))"
    have both: "val = Null \<and> null_deletes opts"
    proof (rule ccontr)
      assume n: "\<not> (val = Null \<and> null_deletes opts)"
      from a have "updated_params loc k val opts =
          params_set (URLSearchParams (search loc)) k (to_string (resolved_value loc k val))"
        by (intro updated_params_set [OF n]) simp
      moreover from this a have "URLSearchParams (search loc'') = updated_params loc k val opts"
        using navigate_params [of loc k val opts loc''] by (simp add: params_set_nonempty)
      ultimately have "(k, to_string (resolved_value loc k val)) \<in> set (URLSearchParams (search loc''))"
        by (simp add: params_set_mem)
      then have "k \<in> fst ` set (URLSearchParams (search loc''))" by force
      with a show False by simp
    qed
    from both show "val = Null" by simp
    from both show "null_deletes opts" by simp
  }
qed


theorem empty_string_keeps_key_witness:
  "wf_location \<lparr>pathname = ''/blog'', search = ''?tag=js&page=2''\<rparr> \<and>
   resolve_url \<lparr>pathname = ''/blog'', search = ''?tag=js&page=2''\<rparr>
     (fst (resolve \<lparr>pathname = ''/blog'', search = ''?tag=js&page=2''\<rparr> ''tag'' (Str (js '''')) no_options))
     = Inr \<lparr>pathname = ''/blog'', search = ''?tag=&page=2''\<rparr> \<and>
   filter (\<lambda>p. fst p = ''tag'')
     (URLSearchParams (search \<lparr>pathname = ''/blog'', search = ''?tag=&page=2''\<rparr>))
     = [(''tag'', '''')] \<and>
   resolve_url \<lparr>pathname = ''/blog'', search = ''?tag=js&page=2''\<rparr>
     (fst (resolve \<lparr>pathname = ''/blog'', search = ''?tag=js&page=2''\<rparr> ''tag'' Null no_options))
     = Inr \<lparr>pathname = ''/blog'', search = ''?page=2''\<rparr> \<and>
   ''tag'' \<in> fst ` set (URLSearchParams (search \<lparr>pathname = ''/blog'', search = ''?tag=js&page=2''\<rparr>)) \<and>
   ''tag'' \<notin> fst ` set (URLSearchParams (search \<lparr>pathname = ''/blog'', search = ''?page=2''\<rparr>)) \<and>
   null_deletes no_options"
proof -
  have h1: "wf_location \<lparr>pathname = ''/blog'', search = ''?tag=js&page=2''\<rparr>" by code_simp
  have h2: "resolve_url \<lparr>pathname = ''/blog'', search = ''?tag=js&page=2''\<rparr>
     (fst (resolve \<lparr>pathname = ''/blog'', search = ''?tag=js&page=2''\<rparr> ''tag'' (Str (js '''')) no_options))
     = Inr \<lparr>pathname = ''/blog'', search = ''?tag=&page=2''\<rparr>"
    by code_simp
  have h3: "resolve_url \<lparr>pathname = ''/blog'', search = ''?tag=js&page=2''\<rparr>
     (fst (resolve \<lparr>pathname = ''/blog'', search = ''?tag=js&page=2''\<rparr> ''tag'' Null no_options))
     = Inr \<lparr>pathname = ''/blog'', search = ''?page=2''\<rparr>"
    by code_simp
  have h4: "''tag'' \<in> fst ` set (URLSearchParams (search \<lparr>pathname = ''/blog'', search = ''?tag=js&page=2''\<rparr>))"
    by code_simp
  have h5: "''tag'' \<notin> fst ` set (URLSearchParams (search \<lparr>pathname = ''/blog'', search = ''?page=2''\<rparr>))"
    by code_simp
  note t = empty_string_keeps_key
    [of "\<lparr>pathname = ''/blog'', search = ''?tag=js&page=2''\<rparr>" "''tag''" no_options
        "\<lparr>pathname = ''/blog'', search = ''?tag=&page=2''\<rparr>" Null
        "\<lparr>pathname = ''/blog'', search = ''?page=2''\<rparr>"]
  from t h1 h2 have c1: "filter (\<lambda>p. fst p = ''tag'')
     (URLSearchParams (search \<lparr>pathname = ''/blog'', search = ''?tag=&page=2''\<rparr>))
     = [(''tag'', '''')]"
    by blast
  from t h1 h3 h4 h5 have c2: "null_deletes no_options" by blast
  from h1 h2 c1 h3 h4 h5 c2 show ?thesis by (intro conjI)
qed

end
